theory Spec2Isabelle
  imports Main "HOL-Library.Word"
begin

section \<open>Data model of the router (src/router/router.go)\<close>

text \<open>
  Go's \<^verbatim>\<open>uint\<close> message id is a 64-bit word; ids are only stored and compared.
  A Go \<^verbatim>\<open>error\<close> is represented by its message (\<^verbatim>\<open>err.Error()\<close>), which is all
  that \<^verbatim>\<open>fmt.Errorf("...%s", err)\<close> reads; the nil error is \<open>None\<close>.
\<close>

type_synonym uint = "64 word"
type_synonym error = string

text \<open>
  Modelled from the spec: package \<^verbatim>\<open>packet\<close> is not part of the sources. A message is
  an unsigned id with a byte sequence; the router reads only \<^verbatim>\<open>req.ID\<close>.
\<close>

record Request =
  ID :: uint
  Data :: "8 word list"

record Response =
  RespID :: uint
  RespData :: "8 word list"

text \<open>
  The result of one receive \<^verbatim>\<open><-s.RecvReq()\<close>: a value (a request pointer, possibly
  nil), the closed channel (\<^verbatim>\<open>ok == false\<close>), or a receive that never returns because
  nothing more is sent and the channel is never closed.
\<close>

datatype recv = Item "Request option" | ChClosed | Blocked

text \<open>
  Modelled from the spec: the interface \<^verbatim>\<open>session.Session\<close> is not part of the
  sources. The router uses three of its methods. \<open>RecvReq s n\<close> is what the \<open>n\<close>-th
  receive on the inbound channel yields; \<open>SendResp\<close> acts on the world \<open>'w\<close>
  (everything handlers and the session can change) and returns its error.
\<close>

record 'w Session =
  SessionID :: string
  RecvReq :: "nat \<Rightarrow> recv"
  SendResp :: "Response \<Rightarrow> 'w \<Rightarrow> error option \<times> 'w"

text \<open>
  Go function values are nilable: \<open>None\<close> is the nil function. The body of a handler is
  application code, taken as a total function from the world to the returned pair and
  the new world. Applying a middleware to \<^verbatim>\<open>next\<close> only builds a handler value.
\<close>

type_synonym 'w HandlerFunc =
  "('w Session \<Rightarrow> Request \<Rightarrow> 'w \<Rightarrow> (Response option \<times> error option) \<times> 'w) option"

type_synonym 'w MiddlewareFunc = "('w HandlerFunc \<Rightarrow> 'w HandlerFunc) option"

text \<open>
  A Go slice is a header: the address of its backing array, its length and its
  capacity. Two slices with the same array share its cells, and \<^verbatim>\<open>append\<close> writes into
  the cells between length and capacity when the new elements fit.
\<close>

type_synonym addr = nat

record slice =
  sliceArray :: addr
  sliceLen :: nat
  sliceCap :: nat

text \<open>
  The two \<^verbatim>\<open>sync.Map\<close> fields are maps from ids; the logger field is the log below.
  \<^verbatim>\<open>globalMiddlewares\<close> is a slice header, and the router carries the memory its slice
  lives in: the cells of every middleware array, and the next free address. Every
  goroutine that holds the router shares this memory. The slices stored in
  \<^verbatim>\<open>middlewaresMapper\<close> are never appended to once stored and nothing writes to their
  arrays, so they are given by their elements.
\<close>

record 'w Router =
  handlerMapper :: "uint \<rightharpoonup> 'w HandlerFunc"
  middlewaresMapper :: "uint \<rightharpoonup> 'w MiddlewareFunc list"
  globalMiddlewares :: slice
  arrays :: "addr \<Rightarrow> nat \<Rightarrow> 'w MiddlewareFunc"
  nextArray :: addr

text \<open>A call either returns or panics (calling a nil function, dereferencing nil).\<close>

datatype 'a result = Panics | Returns 'a

text \<open>A line written through \<^verbatim>\<open>r.log.WithField("sid", s.ID()).Tracef\<close>: the sid and the message.\<close>

type_synonym LogLine = "string \<times> string"

section \<open>The router's operations\<close>

definition defaultHandler :: "'w HandlerFunc" where
  "defaultHandler = Some (\<lambda>s req w. ((None, None), w))"

text \<open>The elements of a slice: the first \<open>sliceLen\<close> cells of its array.\<close>

definition elems :: "'w Router \<Rightarrow> slice \<Rightarrow> 'w MiddlewareFunc list" where
  "elems r sl = map (arrays r (sliceArray sl)) [0..<sliceLen sl]"

definition globals :: "'w Router \<Rightarrow> 'w MiddlewareFunc list" where
  "globals r = elems r (globalMiddlewares r)"

text \<open>
  The capacity the Go runtime gives a slice that has to grow, for slices of fewer than
  256 function values: the capacity asked for when that is more than twice the old
  one, twice the old one otherwise. Appending one element at a time from capacity 0
  gives the capacities 1, 2, 4, 8 and so on.
\<close>

definition growCap :: "nat \<Rightarrow> nat \<Rightarrow> nat" where
  "growCap old needed = (if 2 * old < needed then needed else 2 * old)"

text \<open>
  \<^verbatim>\<open>append(sl, vs...)\<close>. When the elements fit into the capacity they are written into
  the array of \<open>sl\<close>, behind its length, and the result shares that array. Otherwise
  a new array is taken, the elements of \<open>sl\<close> are copied and \<open>vs\<close> put behind them.
\<close>

definition appendSlice ::
  "'w Router \<Rightarrow> slice \<Rightarrow> 'w MiddlewareFunc list \<Rightarrow> slice \<times> 'w Router" where
  "appendSlice r sl vs =
     (let n = sliceLen sl; old = arrays r (sliceArray sl)
      in if n + length vs \<le> sliceCap sl then
           (sl\<lparr>sliceLen := n + length vs\<rparr>,
            r\<lparr>arrays := (arrays r)(sliceArray sl :=
                 (\<lambda>i. if n \<le> i \<and> i < n + length vs then vs ! (i - n) else old i))\<rparr>)
         else
           (\<lparr>sliceArray = nextArray r, sliceLen = n + length vs,
             sliceCap = growCap (sliceCap sl) (n + length vs)\<rparr>,
            r\<lparr>arrays := (arrays r)(nextArray r :=
                 (\<lambda>i. if i < n then old i
                      else if i < n + length vs then vs ! (i - n) else None)),
              nextArray := nextArray r + 1\<rparr>))"

text \<open>\<^verbatim>\<open>New\<close>: empty maps and \<^verbatim>\<open>make([]MiddlewareFunc, 0)\<close>, a slice of length and capacity 0.\<close>

definition New :: "'w Router" where
  "New = \<lparr>handlerMapper = Map.empty, middlewaresMapper = Map.empty,
          globalMiddlewares = \<lparr>sliceArray = 0, sliceLen = 0, sliceCap = 0\<rparr>,
          arrays = (\<lambda>a i. None), nextArray = 1\<rparr>"

text \<open>
  The loop of \<^verbatim>\<open>wrapHandlers\<close>, \<^verbatim>\<open>for i := len(middles) - 1; i >= 0; i--\<close>, over the cells
  of the array of \<^verbatim>\<open>middles\<close> as they are when the loop runs. The index stays below the
  length; calling a nil entry panics.
\<close>

function wrapHandlers_loop ::
  "(nat \<Rightarrow> 'w MiddlewareFunc) \<Rightarrow> int \<Rightarrow> 'w HandlerFunc \<Rightarrow> 'w HandlerFunc result" where
  "wrapHandlers_loop cells i wrapped =
     (if i \<ge> 0 then
        (case cells (nat i) of
           None \<Rightarrow> Panics
         | Some m \<Rightarrow> wrapHandlers_loop cells (i - 1) (m wrapped))
      else Returns wrapped)"
  by pat_completeness auto
termination
  by (relation "measure (\<lambda>(cells, i, wrapped). nat (i + 1))") auto

definition wrapHandlers ::
  "'w Router \<Rightarrow> 'w HandlerFunc \<Rightarrow> slice \<Rightarrow> 'w HandlerFunc result" where
  "wrapHandlers r handler middles =
     (let handler = (if handler = None then defaultHandler else handler);
          wrapped = handler
      in wrapHandlers_loop (arrays r (sliceArray middles)) (int (sliceLen middles) - 1) wrapped)"

text \<open>
  Lines 95 to 106 of \<^verbatim>\<open>handleReq\<close>: call the wrapped stack, then send the response if
  there is one. Calling a nil \<^verbatim>\<open>wrapped\<close> panics.
\<close>

definition callStack ::
  "'w Session \<Rightarrow> Request \<Rightarrow> 'w HandlerFunc \<Rightarrow> 'w \<Rightarrow> error option result \<times> 'w" where
  "callStack s req wrapped w =
     (case wrapped of
        None \<Rightarrow> (Panics, w)
      | Some f \<Rightarrow>
          (case f s req w of
             ((resp, Some err), w') \<Rightarrow> (Returns (Some (''handler err: '' @ err)), w')
           | ((None, None), w') \<Rightarrow> (Returns None, w')
           | ((Some resp, None), w') \<Rightarrow>
               (case SendResp s resp w' of
                  (Some err, w'') \<Rightarrow>
                    (Returns (Some (''session send response err: '' @ err)), w'')
                | (None, w'') \<Rightarrow> (Returns None, w''))))"

text \<open>
  Lines 83 to 91 of \<^verbatim>\<open>handleReq\<close>: the handler and the middleware slice for an id.
  \<^verbatim>\<open>middles = append(middles, v...)\<close> starts from the header of \<^verbatim>\<open>r.globalMiddlewares\<close>, so
  it writes into the shared array of the global middlewares when that has room.
\<close>

definition lookupHandler :: "'w Router \<Rightarrow> uint \<Rightarrow> 'w HandlerFunc" where
  "lookupHandler r i = (case handlerMapper r i of Some v \<Rightarrow> v | None \<Rightarrow> None)"

definition lookupMiddles :: "'w Router \<Rightarrow> uint \<Rightarrow> slice \<times> 'w Router" where
  "lookupMiddles r i =
     (let middles = globalMiddlewares r
      in case middlewaresMapper r i of
           Some v \<Rightarrow> appendSlice r middles v
         | None \<Rightarrow> (middles, r))"

text \<open>Lines 93 to 106 of \<^verbatim>\<open>handleReq\<close>: wrap, and call the stack.\<close>

definition callChain ::
  "'w Router \<Rightarrow> 'w Session \<Rightarrow> Request \<Rightarrow> 'w HandlerFunc \<Rightarrow> slice \<Rightarrow> 'w \<Rightarrow>
     error option result \<times> 'w" where
  "callChain r s rq handler middles w =
     (case wrapHandlers r handler middles of
        Panics \<Rightarrow> (Panics, w)
      | Returns wrapped \<Rightarrow> callStack s rq wrapped w)"

text \<open>
  \<^verbatim>\<open>handleReq\<close>, run from its first line to its last with no other goroutine in between.
  It returns the error and the world, and the router with the memory as the append
  left it.
\<close>

definition handleReq ::
  "'w Router \<Rightarrow> 'w Session \<Rightarrow> Request option \<Rightarrow> 'w \<Rightarrow>
     (error option result \<times> 'w) \<times> 'w Router" where
  "handleReq r s req w =
     (case req of
        None \<Rightarrow> ((Panics, w), r)
      | Some rq \<Rightarrow>
          (let handler = lookupHandler r (ID rq);
               (middles, r') = lookupMiddles r (ID rq)
           in (callChain r' s rq handler middles w, r')))"

text \<open>
  Two goroutines of \<^verbatim>\<open>Loop\<close>, for the requests \<open>a\<close> and \<open>b\<close>, scheduled so that both run
  lines 83 to 91 before either runs line 93: \<open>a\<close> appends, \<open>b\<close> appends, \<open>a\<close> wraps and
  calls, \<open>b\<close> wraps and calls. The result is what each of the two gets.
\<close>

definition handleReqInterleaved ::
  "'w Router \<Rightarrow> 'w Session \<Rightarrow> Request \<Rightarrow> Request \<Rightarrow> 'w \<Rightarrow>
     (error option result \<times> 'w) \<times> (error option result \<times> 'w)" where
  "handleReqInterleaved r s a b w =
     (let handlerA = lookupHandler r (ID a);
          (middlesA, r1) = lookupMiddles r (ID a);
          handlerB = lookupHandler r1 (ID b);
          (middlesB, r2) = lookupMiddles r1 (ID b);
          resA = callChain r2 s a handlerA middlesA w;
          resB = callChain r2 s b handlerB middlesB (snd resA)
      in (resA, resB))"

text \<open>
  The body of the goroutine started by \<^verbatim>\<open>Loop\<close> for one request: \<^verbatim>\<open>handleReq\<close>, and a
  log line when it returns an error. A panic is not recovered.
\<close>

definition goroutine ::
  "'w Router \<Rightarrow> 'w Session \<Rightarrow> Request \<Rightarrow> 'w \<times> LogLine list \<Rightarrow>
     ('w \<times> LogLine list) result \<times> 'w Router" where
  "goroutine r s req st =
     (case handleReq r s (Some req) (fst st) of
        ((Panics, w'), r') \<Rightarrow> (Panics, r')
      | ((Returns (Some err), w'), r') \<Rightarrow>
          (Returns (w', snd st @ [(SessionID s, ''handle request err: '' @ err)]), r')
      | ((Returns None, w'), r') \<Rightarrow> (Returns (w', snd st), r'))"

text \<open>
  \<^verbatim>\<open>Loop\<close> itself only receives, starts goroutines and logs. Its state is the list of
  requests for which a goroutine was started, in order, and its own log lines. The
  loop never reads what a goroutine does. A receive that never returns makes the
  loop never return: the value \<open>None\<close>.
\<close>

record LoopState =
  spawned :: "Request list"
  logs :: "LogLine list"

partial_function (option) Loop ::
  "'w Router \<Rightarrow> 'w Session \<Rightarrow> nat \<Rightarrow> LoopState \<Rightarrow> LoopState option" where
  "Loop r s n st =
     (case RecvReq s n of
        Blocked \<Rightarrow> None
      | ChClosed \<Rightarrow>
          Some (st\<lparr>logs := logs st @
            [(SessionID s, ''loop stopped since session is closed''),
             (SessionID s, ''loop exit'')]\<rparr>)
      | Item req \<Rightarrow>
          (case req of
             None \<Rightarrow> Loop r s (n + 1) st
           | Some rq \<Rightarrow> Loop r s (n + 1) (st\<lparr>spawned := spawned st @ [rq]\<rparr>)))"

text \<open>The loop \<^verbatim>\<open>for _, mm := range m\<close> of \<^verbatim>\<open>Register\<close>: the non-nil entries, appended to \<open>ms\<close>.\<close>

fun appendNonNil :: "'w MiddlewareFunc list \<Rightarrow> 'w MiddlewareFunc list \<Rightarrow> 'w MiddlewareFunc list" where
  "appendNonNil ms [] = ms"
| "appendNonNil ms (mm # m) = (if mm \<noteq> None then appendNonNil (ms @ [mm]) m else appendNonNil ms m)"

definition Register ::
  "'w Router \<Rightarrow> uint \<Rightarrow> 'w HandlerFunc \<Rightarrow> 'w MiddlewareFunc list \<Rightarrow> 'w Router" where
  "Register r i h m =
     (let r1 = (if h \<noteq> None then r\<lparr>handlerMapper := (handlerMapper r)(i \<mapsto> h)\<rparr> else r)
      in if length m \<noteq> 0 then
           (let ms = appendNonNil [] m
            in if length ms \<noteq> 0
               then r1\<lparr>middlewaresMapper := (middlewaresMapper r1)(i \<mapsto> ms)\<rparr>
               else r1)
         else r1)"

text \<open>
  The loop of \<^verbatim>\<open>RegisterMiddleware\<close>: each non-nil entry is appended by itself,
  \<^verbatim>\<open>r.globalMiddlewares = append(r.globalMiddlewares, mm)\<close>.
\<close>

fun appendEach :: "'w Router \<Rightarrow> 'w MiddlewareFunc list \<Rightarrow> 'w Router" where
  "appendEach r [] = r"
| "appendEach r (mm # m) =
     (if mm \<noteq> None then
        (let (sl, r') = appendSlice r (globalMiddlewares r) [mm]
         in appendEach (r'\<lparr>globalMiddlewares := sl\<rparr>) m)
      else appendEach r m)"

definition RegisterMiddleware :: "'w Router \<Rightarrow> 'w MiddlewareFunc list \<Rightarrow> 'w Router" where
  "RegisterMiddleware r m = (if length m \<noteq> 0 then appendEach r m else r)"

section \<open>Routers built through the API, and the chain as the specification words it\<close>

text \<open>
  The fields of a router are private: every router a program holds comes from \<^verbatim>\<open>New\<close>
  followed by calls of \<^verbatim>\<open>Register\<close> and \<^verbatim>\<open>RegisterMiddleware\<close>.
\<close>

inductive built :: "'w Router \<Rightarrow> bool" where
  built_New: "built New"
| built_Register: "built r \<Longrightarrow> built (Register r i h m)"
| built_RegisterMiddleware: "built r \<Longrightarrow> built (RegisterMiddleware r m)"

text \<open>
  Nested wrapping in the specification's words: the \<^verbatim>\<open>next\<close> of middleware \<open>i\<close> is the
  handler produced by middleware \<open>i + 1\<close>, and the innermost \<^verbatim>\<open>next\<close> is what is
  wrapped. A nil middleware in the list cannot be called: the construction panics.
\<close>

fun wrapAround :: "'w MiddlewareFunc list \<Rightarrow> 'w HandlerFunc result \<Rightarrow> 'w HandlerFunc result" where
  "wrapAround [] inner = inner"
| "wrapAround (m # ms) inner =
     (case wrapAround ms inner of
        Panics \<Rightarrow> Panics
      | Returns next \<Rightarrow> (case m of None \<Rightarrow> Panics | Some f \<Rightarrow> Returns (f next)))"

text \<open>
  The composed chain of an id in the specification's words: the global middlewares, in
  registration order, wrap the middlewares of the id, in registration order, which
  wrap the handler of the id, or the default handler when none is registered.
\<close>

definition composedChain :: "'w Router \<Rightarrow> uint \<Rightarrow> 'w HandlerFunc result" where
  "composedChain r i =
     wrapAround (globals r)
       (wrapAround (case middlewaresMapper r i of None \<Rightarrow> [] | Some v \<Rightarrow> v)
          (Returns (case handlerMapper r i of
                      Some (Some h) \<Rightarrow> Some h
                    | _ \<Rightarrow> defaultHandler)))"

text \<open>
  The requests for which \<^verbatim>\<open>Loop\<close> has to start a goroutine among the receives \<open>n\<close> to
  \<open>k - 1\<close>: the non-nil values received, in order.
\<close>

definition dispatched :: "'w Session \<Rightarrow> nat \<Rightarrow> nat \<Rightarrow> Request list" where
  "dispatched s n k =
     concat (map (\<lambda>j. case RecvReq s j of Item (Some rq) \<Rightarrow> [rq] | _ \<Rightarrow> []) [n..<k])"

section \<open>The accept loop of the server (src/unnamed/part_001, lines 1 to 83)\<close>

text \<open>
  Modelled from the spec: \<^verbatim>\<open>Connection\<close> and \<^verbatim>\<open>NewConnection\<close> are not part of the
  sources. A connection owns a one-shot closed signal; \<open>Closes\<close> says whether that signal
  ever fires, so that the receive \<^verbatim>\<open><-conn.Closed\<close> returns, or the connection stays
  open for ever and the receive never returns.
\<close>

record Connection =
  Peer :: nat
  Closes :: bool

text \<open>
  What the \<open>k\<close>-th call of \<^verbatim>\<open>s.listener.Accept()\<close> does: it yields a socket (given here
  as the connection \<^verbatim>\<open>NewConnection\<close> builds from it), fails, or never returns.
\<close>

datatype accept_result = Accepted Connection | AcceptError error | AcceptBlocks

text \<open>The fields of \<^verbatim>\<open>Server\<close> that \<^verbatim>\<open>keepAccepting\<close> reads; the hooks are nilable functions.\<close>

record 'w Server =
  listener :: "nat \<Rightarrow> accept_result"
  onConnectedFn :: "(Connection \<Rightarrow> 'w \<Rightarrow> 'w) option"
  onDisconnectFn :: "(Connection \<Rightarrow> 'w \<Rightarrow> 'w) option"

text \<open>
  The state the loop changes: the connections built so far, each with its goroutines
  \<^verbatim>\<open>KeepReading\<close> and \<^verbatim>\<open>KeepWriting\<close> started, and the world the hooks act on.
\<close>

record 'w ServerState =
  conns :: "Connection list"
  hookWorld :: 'w

text \<open>
  Where the loop is when it stops making progress: it returned the accept error, it
  waits in \<^verbatim>\<open>Accept\<close>, it waits in \<^verbatim>\<open><-conn.Closed\<close>, or the given number of iterations
  is used up.
\<close>

datatype accept_outcome = Returned error | WaitingAccept | WaitingClosed Connection | OutOfFuel

fun keepAccepting ::
  "nat \<Rightarrow> 'w Server \<Rightarrow> nat \<Rightarrow> 'w ServerState \<Rightarrow> accept_outcome \<times> 'w ServerState" where
  "keepAccepting 0 srv k st = (OutOfFuel, st)"
| "keepAccepting (Suc fuel) srv k st =
     (case listener srv k of
        AcceptBlocks \<Rightarrow> (WaitingAccept, st)
      | AcceptError err \<Rightarrow> (Returned err, st)
      | Accepted conn \<Rightarrow>
          (let st1 = st\<lparr>conns := conns st @ [conn]\<rparr>;
               st2 = (case onConnectedFn srv of
                        None \<Rightarrow> st1
                      | Some fn \<Rightarrow> st1\<lparr>hookWorld := fn conn (hookWorld st1)\<rparr>)
           in if Closes conn then
                (let st3 = (case onDisconnectFn srv of
                              None \<Rightarrow> st2
                            | Some fn \<Rightarrow> st2\<lparr>hookWorld := fn conn (hookWorld st2)\<rparr>)
                 in keepAccepting fuel srv (k + 1) st3)
              else (WaitingClosed conn, st2)))"

text \<open>
  The hooks of a serial run, one connection after the other: for each connection in
  turn the connect hook, then, once the connection has closed, the disconnect hook,
  then the next connection; a connection that never closes ends the run after its
  connect hook. A nil hook does nothing.
\<close>

definition runHook :: "(Connection \<Rightarrow> 'w \<Rightarrow> 'w) option \<Rightarrow> Connection \<Rightarrow> 'w \<Rightarrow> 'w" where
  "runHook fn c w = (case fn of None \<Rightarrow> w | Some f \<Rightarrow> f c w)"

fun serialHooks :: "'w Server \<Rightarrow> Connection list \<Rightarrow> 'w \<Rightarrow> 'w" where
  "serialHooks srv [] w = w"
| "serialHooks srv (c # cs) w =
     (if Closes c
      then serialHooks srv cs (runHook (onDisconnectFn srv) c (runHook (onConnectedFn srv) c w))
      else runHook (onConnectedFn srv) c w)"

section \<open>Handlers, middlewares and sessions used as concrete inputs\<close>

text \<open>
  The world of the examples is a list of markers. \<open>tagHandler x resp err\<close> leaves the
  marker \<open>x\<close> and returns \<open>(resp, err)\<close>; \<open>tagMiddleware x\<close> leaves \<open>x\<close> and calls
  \<^verbatim>\<open>next\<close>; \<open>replyMiddleware resp\<close> answers without calling \<^verbatim>\<open>next\<close>.
\<close>

definition tagHandler :: "string \<Rightarrow> Response option \<Rightarrow> error option \<Rightarrow> string list HandlerFunc" where
  "tagHandler x resp err = Some (\<lambda>s req w. ((resp, err), w @ [x]))"

definition tagMiddleware :: "string \<Rightarrow> string list MiddlewareFunc" where
  "tagMiddleware x =
     Some (\<lambda>next. case next of
                     None \<Rightarrow> None
                   | Some f \<Rightarrow> Some (\<lambda>s req w. f s req (w @ [x])))"


definition pong :: Response where
  "pong = \<lparr>RespID = 2, RespData = [112, 111, 110, 103]\<rparr>"

definition ping :: "uint \<Rightarrow> Request" where
  "ping i = \<lparr>ID = i, Data = [112, 105, 110, 103]\<rparr>"

text \<open>
  A router with three global middlewares, registered one by one so that their slice has
  length 3 and capacity 4, and two routes with one middleware each.
\<close>

definition raceRouter :: "string list Router" where
  "raceRouter =
     Register
       (Register
          (RegisterMiddleware New [tagMiddleware ''G1'', tagMiddleware ''G2'', tagMiddleware ''G3''])
          1 (tagHandler ''H1'' None None) [tagMiddleware ''R1''])
       2 (tagHandler ''H2'' None None) [tagMiddleware ''R2'']"

text \<open>A session that accepts every response, and one whose connection is already closed.\<close>

definition openSession :: "(nat \<Rightarrow> recv) \<Rightarrow> string list Session" where
  "openSession ch =
     \<lparr>SessionID = ''s1'', RecvReq = ch, SendResp = (\<lambda>resp w. (None, w @ [''sent'']))\<rparr>"

definition closedSession :: "(nat \<Rightarrow> recv) \<Rightarrow> string list Session" where
  "closedSession ch =
     \<lparr>SessionID = ''s2'', RecvReq = ch, SendResp = (\<lambda>resp w. (Some ''session closed'', w))\<rparr>"

text \<open>An inbound channel that delivers the given values and is then closed.\<close>

definition chanOf :: "Request option list \<Rightarrow> nat \<Rightarrow> recv" where
  "chanOf xs n = (if n < length xs then Item (xs ! n) else ChClosed)"

text \<open>
  Hooks that leave a marker, and a listener on which one peer per entry of the list
  waits to be accepted; the entry says whether that peer ever hangs up.
\<close>

definition markHook :: "string \<Rightarrow> (Connection \<Rightarrow> string list \<Rightarrow> string list) option" where
  "markHook x = Some (\<lambda>conn w. w @ [x])"

definition hookServer :: "(nat \<Rightarrow> accept_result) \<Rightarrow> string list Server" where
  "hookServer l =
     \<lparr>listener = l, onConnectedFn = markHook ''connected'', onDisconnectFn = markHook ''disconnected''\<rparr>"

definition peersOf :: "bool list \<Rightarrow> nat \<Rightarrow> accept_result" where
  "peersOf xs k = (if k < length xs then Accepted \<lparr>Peer = k, Closes = xs ! k\<rparr> else AcceptBlocks)"

section \<open>Registration\<close>

lemma appendNonNil_filter: "appendNonNil ms m = ms @ filter (\<lambda>mm. mm \<noteq> None) m"
  by (induction m arbitrary: ms) auto

lemma filter_nonNil_empty: "(filter (\<lambda>mm. mm \<noteq> None) m = []) = (\<forall>mm\<in>set m. mm = None)"
  by (induction m) auto

lemma Register_handlerMapper:
  "handlerMapper (Register r i h m) = (if h = None then handlerMapper r else (handlerMapper r)(i \<mapsto> h))"
  by (simp add: Register_def Let_def)

lemma Register_middlewaresMapper:
  "middlewaresMapper (Register r i h m) =
     (if filter (\<lambda>mm. mm \<noteq> None) m = [] then middlewaresMapper r
      else (middlewaresMapper r)(i \<mapsto> filter (\<lambda>mm. mm \<noteq> None) m))"
  by (simp add: Register_def Let_def appendNonNil_filter)

lemma Register_globals: "globals (Register r i h m) = globals r"
  by (simp add: Register_def Let_def globals_def elems_def)

lemma globals_New: "globals New = []"
  by (simp add: globals_def elems_def New_def)

lemma map_written_cells:
  "map (\<lambda>i. if n \<le> i \<and> i < n + length vs then vs ! (i - n) else old i) [0..<n + length vs] =
     map old [0..<n] @ vs"
proof (rule nth_equalityI)
  show "length (map (\<lambda>i. if n \<le> i \<and> i < n + length vs then vs ! (i - n) else old i)
      [0..<n + length vs]) = length (map old [0..<n] @ vs)"
    by simp
next
  fix i
  assume "i < length (map (\<lambda>i. if n \<le> i \<and> i < n + length vs then vs ! (i - n) else old i)
      [0..<n + length vs])"
  then have i: "i < n + length vs" by simp
  then show "map (\<lambda>i. if n \<le> i \<and> i < n + length vs then vs ! (i - n) else old i)
      [0..<n + length vs] ! i = (map old [0..<n] @ vs) ! i"
    by (cases "i < n") (simp_all add: nth_append)
qed

lemma map_copied_cells:
  "map (\<lambda>i. if i < n then old i else if i < n + length vs then vs ! (i - n) else d)
     [0..<n + length vs] = map old [0..<n] @ vs"
proof (rule nth_equalityI)
  show "length (map (\<lambda>i. if i < n then old i else if i < n + length vs then vs ! (i - n) else d)
      [0..<n + length vs]) = length (map old [0..<n] @ vs)"
    by simp
next
  fix i
  assume "i < length (map (\<lambda>i. if i < n then old i else if i < n + length vs then vs ! (i - n) else d)
      [0..<n + length vs])"
  then have i: "i < n + length vs" by simp
  then show "map (\<lambda>i. if i < n then old i else if i < n + length vs then vs ! (i - n) else d)
      [0..<n + length vs] ! i = (map old [0..<n] @ vs) ! i"
    by (cases "i < n") (simp_all add: nth_append)
qed

lemma elems_appendSlice:
  "elems (snd (appendSlice r sl vs)) (fst (appendSlice r sl vs)) = elems r sl @ vs"
proof (cases "sliceLen sl + length vs \<le> sliceCap sl")
  case True
  then show ?thesis
    using map_written_cells [of "sliceLen sl" vs "arrays r (sliceArray sl)"]
    by (simp add: appendSlice_def Let_def elems_def del: upt_Suc)
next
  case False
  then show ?thesis
    using map_copied_cells [of "sliceLen sl" "arrays r (sliceArray sl)" vs None]
    by (simp add: appendSlice_def Let_def elems_def del: upt_Suc)
qed

lemma appendSlice_maps:
  "handlerMapper (snd (appendSlice r sl vs)) = handlerMapper r"
  "middlewaresMapper (snd (appendSlice r sl vs)) = middlewaresMapper r"
  by (simp_all add: appendSlice_def Let_def)

lemma appendEach_fields:
  "handlerMapper (appendEach r m) = handlerMapper r \<and>
   middlewaresMapper (appendEach r m) = middlewaresMapper r \<and>
   globals (appendEach r m) = globals r @ filter (\<lambda>mm. mm \<noteq> None) m"
proof (induction m arbitrary: r)
  case Nil
  show ?case by simp
next
  case (Cons mm m)
  show ?case
  proof (cases "mm = None")
    case True
    with Cons.IH [of r] show ?thesis by simp
  next
    case False
    let ?a = "appendSlice r (globalMiddlewares r) [mm]"
    let ?r = "(snd ?a)\<lparr>globalMiddlewares := fst ?a\<rparr>"
    have step: "appendEach r (mm # m) = appendEach ?r m"
      using False by (simp add: case_prod_beta)
    have g: "globals ?r = globals r @ [mm]"
      using elems_appendSlice [of r "globalMiddlewares r" "[mm]"]
      by (simp add: globals_def elems_def)
    have h: "handlerMapper ?r = handlerMapper r" "middlewaresMapper ?r = middlewaresMapper r"
      by (simp_all add: appendSlice_maps)
    from Cons.IH [of ?r] g h False show ?thesis
      unfolding step by simp
  qed
qed

lemma RegisterMiddleware_fields:
  "handlerMapper (RegisterMiddleware r m) = handlerMapper r"
  "middlewaresMapper (RegisterMiddleware r m) = middlewaresMapper r"
  "globals (RegisterMiddleware r m) = globals r @ filter (\<lambda>mm. mm \<noteq> None) m"
  using appendEach_fields [of r m] by (simp_all add: RegisterMiddleware_def)

lemma built_no_nil:
  "built r \<Longrightarrow>
   None \<notin> set (globals r) \<and> (\<forall>j l. middlewaresMapper r j = Some l \<longrightarrow> None \<notin> set l)"
proof (induction rule: built.induct)
  case built_New
  show ?case by (simp add: globals_New) (simp add: New_def)
next
  case (built_Register r i h m)
  then show ?case
    by (auto simp: Register_globals Register_middlewaresMapper split: if_splits)
next
  case (built_RegisterMiddleware r m)
  then show ?case by (auto simp: RegisterMiddleware_fields)
qed

text \<open>
  C1, as the code has it. The claim reads: after \<^verbatim>\<open>Register(id, h, ms...)\<close> the handler
  stored for the id is \<open>h\<close> and the middleware list stored for the id is the list stored
  before with \<open>ms\<close> appended. The code stores with \<^verbatim>\<open>Store\<close>: a non-nil \<open>h\<close> replaces the
  handler of the id (a nil \<open>h\<close> leaves it), and the non-nil entries of \<open>ms\<close>, when there
  is at least one, replace the list of the id (otherwise the list stays as it was).
\<close>

theorem Register_stores:
  "handlerMapper (Register r i h m) i = (if h = None then handlerMapper r i else Some h) \<and>
   middlewaresMapper (Register r i h m) i =
     (if filter (\<lambda>mm. mm \<noteq> None) m = [] then middlewaresMapper r i
      else Some (filter (\<lambda>mm. mm \<noteq> None) m))"
  by (simp add: Register_handlerMapper Register_middlewaresMapper)

theorem Register_stores_witness:
  "handlerMapper (Register (Register New 7 (tagHandler ''H1'' None None) [tagMiddleware ''M1''])
      7 (tagHandler ''H2'' None None) [None, tagMiddleware ''M2'']) 7 = Some (tagHandler ''H2'' None None) \<and>
   middlewaresMapper (Register (Register New 7 (tagHandler ''H1'' None None) [tagMiddleware ''M1''])
      7 (tagHandler ''H2'' None None) [None, tagMiddleware ''M2'']) 7 = Some [tagMiddleware ''M2'']"
  using Register_stores [of "Register New 7 (tagHandler ''H1'' None None) [tagMiddleware ''M1'']"
      7 "tagHandler ''H2'' None None" "[None, tagMiddleware ''M2'']"]
  by (simp add: tagHandler_def tagMiddleware_def)

text \<open>
  C1 as stated fails: registering \<open>M1\<close> and then \<open>M2\<close> for id 7 leaves the list \<open>[M2]\<close>,
  not \<open>[M1, M2]\<close>; and registering a nil handler does not store nil for the id.
\<close>

theorem Register_append_counterexample:
  "middlewaresMapper (Register (Register New 7 (tagHandler ''H'' None None) [tagMiddleware ''M1''])
      7 (tagHandler ''H'' None None) [tagMiddleware ''M2'']) 7 = Some [tagMiddleware ''M2''] \<and>
   middlewaresMapper (Register (Register New 7 (tagHandler ''H'' None None) [tagMiddleware ''M1''])
      7 (tagHandler ''H'' None None) [tagMiddleware ''M2'']) 7
     \<noteq> Some ([tagMiddleware ''M1''] @ [tagMiddleware ''M2'']) \<and>
   handlerMapper (Register (Register New 7 (tagHandler ''H'' None None) []) 7 None []) 7 \<noteq> Some None"
  by (simp add: Register_def New_def tagHandler_def tagMiddleware_def)

text \<open>
  C9: \<^verbatim>\<open>Register(id, nil, ms...)\<close> leaves every registered handler as it was; a call
  with no middlewares, or with nil middlewares only, leaves every stored middleware
  list as it was; and no router built through the API holds a nil entry in the global
  list or in the list of any id.
\<close>

theorem Register_nil_frame:
  "handlerMapper (Register r i None m) = handlerMapper r \<and>
   ((\<forall>mm\<in>set m. mm = None) \<longrightarrow> middlewaresMapper (Register r i h m) = middlewaresMapper r) \<and>
   (built r \<longrightarrow> None \<notin> set (globals r) \<and>
      (\<forall>l. middlewaresMapper r j = Some l \<longrightarrow> None \<notin> set l))"
  using built_no_nil [of r]
  by (simp add: Register_handlerMapper Register_middlewaresMapper filter_nonNil_empty)

theorem Register_nil_frame_witness:
  "handlerMapper (Register (Register New 7 (tagHandler ''H'' None None) [tagMiddleware ''M1'']) 7 None [None, None]) 7
     = Some (tagHandler ''H'' None None) \<and>
   middlewaresMapper (Register (Register New 7 (tagHandler ''H'' None None) [tagMiddleware ''M1'']) 7 None [None, None]) 7
     = Some [tagMiddleware ''M1''] \<and>
   built (Register New 7 (tagHandler ''H'' None None) [None, tagMiddleware ''M1'', None] :: string list Router) \<and>
   middlewaresMapper (Register New 7 (tagHandler ''H'' None None) [None, tagMiddleware ''M1'', None]) 7
     = Some [tagMiddleware ''M1''] \<and>
   None \<notin> set [tagMiddleware ''M1'']"
proof -
  let ?r = "Register New 7 (tagHandler ''H'' None None) [tagMiddleware ''M1''] :: string list Router"
  let ?q = "Register New 7 (tagHandler ''H'' None None) [None, tagMiddleware ''M1'', None] :: string list Router"
  have b: "built ?q" by (intro built.intros)
  have q: "middlewaresMapper ?q 7 = Some [tagMiddleware ''M1'']"
    by (simp add: Register_def New_def tagMiddleware_def tagHandler_def)
  have r: "handlerMapper ?r 7 = Some (tagHandler ''H'' None None)"
    "middlewaresMapper ?r 7 = Some [tagMiddleware ''M1'']"
    by (simp_all add: Register_def New_def tagMiddleware_def tagHandler_def)
  from Register_nil_frame [of ?r 7 "[None, None]" None 7] r
  have 1: "handlerMapper (Register ?r 7 None [None, None]) 7 = Some (tagHandler ''H'' None None)"
    and 2: "middlewaresMapper (Register ?r 7 None [None, None]) 7 = Some [tagMiddleware ''M1'']"
    by simp_all
  from Register_nil_frame [of ?q 7 "[]" None 7] b q
  have 3: "None \<notin> set [tagMiddleware ''M1'']" by simp
  from 1 2 b q 3 show ?thesis by simp
qed

section \<open>The composed chain\<close>

lemma wrapAround_Panics: "wrapAround ms Panics = Panics"
  by (induction ms) auto

lemma wrapAround_append: "wrapAround (xs @ ys) inner = wrapAround xs (wrapAround ys inner)"
  by (induction xs) auto

lemma wrapAround_snoc:
  "wrapAround (xs @ [m]) (Returns wrapped) =
     (case m of None \<Rightarrow> Panics | Some f \<Rightarrow> wrapAround xs (Returns (f wrapped)))"
  by (simp add: wrapAround_append wrapAround_Panics split: option.split)

lemma wrapHandlers_loop_prefix:
  "wrapHandlers_loop cells (int k - 1) wrapped = wrapAround (map cells [0..<k]) (Returns wrapped)"
proof (induction k arbitrary: wrapped)
  case 0
  show ?case by simp
next
  case (Suc k)
  have idx: "int (Suc k) - 1 = int k" by simp
  have unfold: "wrapHandlers_loop cells (int k) wrapped =
      (case cells k of
         None \<Rightarrow> Panics
       | Some m \<Rightarrow> wrapHandlers_loop cells (int k - 1) (m wrapped))"
    by (subst wrapHandlers_loop.simps) simp
  show ?case
    unfolding idx unfold using Suc.IH
    by (simp add: wrapAround_snoc del: wrapHandlers_loop.simps split: option.split)
qed

lemma wrapHandlers_wrapAround:
  "wrapHandlers r handler middles =
     wrapAround (elems r middles) (Returns (if handler = None then defaultHandler else handler))"
  using wrapHandlers_loop_prefix [of "arrays r (sliceArray middles)" "sliceLen middles"]
  by (simp add: wrapHandlers_def Let_def elems_def del: wrapHandlers_loop.simps)

lemma lookupMiddles_elems:
  "elems (snd (lookupMiddles r i)) (fst (lookupMiddles r i)) =
     globals r @ (case middlewaresMapper r i of None \<Rightarrow> [] | Some v \<Rightarrow> v)"
  using elems_appendSlice [of r "globalMiddlewares r"]
  by (simp add: lookupMiddles_def Let_def globals_def split: option.split)

lemma base_handler:
  "(if lookupHandler r i = None then defaultHandler else lookupHandler r i) =
     (case handlerMapper r i of Some (Some h) \<Rightarrow> Some h | _ \<Rightarrow> defaultHandler)"
  by (simp add: lookupHandler_def split: option.split)

lemma wrapHandlers_composedChain:
  "wrapHandlers (snd (lookupMiddles r i)) (lookupHandler r i) (fst (lookupMiddles r i)) =
     composedChain r i"
  unfolding wrapHandlers_wrapAround composedChain_def lookupMiddles_elems wrapAround_append base_handler
  by (rule refl)


lemma handleReq_composedChain:
  "fst (handleReq r s (Some rq) w) =
     (case composedChain r (ID rq) of
        Panics \<Rightarrow> (Panics, w)
      | Returns wrapped \<Rightarrow> callStack s rq wrapped w)"
  by (simp add: handleReq_def Let_def case_prod_beta callChain_def wrapHandlers_composedChain)


lemma wrapAround_no_nil:
  "None \<notin> set ms \<Longrightarrow> \<exists>h. wrapAround ms (Returns inner) = Returns h"
  by (induction ms) (auto split: option.split)

text \<open>
  C2 fails on the code. The claim reads: for every request the chain executed by
  dispatch is the global middlewares around the middlewares of the request's id around
  the base handler. \<^verbatim>\<open>handleReq\<close> appends the route middlewares to the header of
  \<^verbatim>\<open>r.globalMiddlewares\<close>. On a router with three global middlewares that slice has length
  3 and capacity 4, so the append writes the route middleware into the fourth cell of
  the array all goroutines share. A request for id 1 that runs alone leaves the markers
  G1, G2, G3, R1, H1. When the goroutines for id 1 and id 2 both append before either
  wraps, the request for id 1 runs the middleware R2 of id 2: the markers are G1, G2,
  G3, R2, H1.
\<close>

theorem dispatch_race:
  "globalMiddlewares raceRouter = \<lparr>sliceArray = 3, sliceLen = 3, sliceCap = 4\<rparr> \<and>
   fst (handleReq raceRouter (openSession (chanOf [])) (Some (ping 1)) []) =
     (Returns None, [''G1'', ''G2'', ''G3'', ''R1'', ''H1'']) \<and>
   fst (handleReqInterleaved raceRouter (openSession (chanOf [])) (ping 1) (ping 2) []) =
     (Returns None, [''G1'', ''G2'', ''G3'', ''R2'', ''H1''])"
  by code_simp

section \<open>Requests without a registered handler\<close>




section \<open>Outcomes of a dispatch, and the loop\<close>

lemma callStack_error:
  "f s rq w = ((resp, Some e), w') \<Longrightarrow>
   callStack s rq (Some f) w = (Returns (Some (''handler err: '' @ e)), w')"
  by (simp add: callStack_def split: option.split)

lemma callStack_silent:
  "f s rq w = ((None, None), w') \<Longrightarrow> callStack s rq (Some f) w = (Returns None, w')"
  by (simp add: callStack_def)

lemma callStack_send_failed:
  "f s rq w = ((Some resp, None), w') \<Longrightarrow> SendResp s resp w' = (Some e, w'') \<Longrightarrow>
   callStack s rq (Some f) w = (Returns (Some (''session send response err: '' @ e)), w'')"
  by (simp add: callStack_def)

lemma dispatched_Cons:
  "n < k \<Longrightarrow>
   dispatched s n k = (case RecvReq s n of Item (Some rq) \<Rightarrow> [rq] | _ \<Rightarrow> []) @ dispatched s (Suc n) k"
  by (simp add: dispatched_def upt_conv_Cons)

lemma dispatched_empty: "dispatched s n n = []"
  by (simp add: dispatched_def)

lemma Loop_items:
  "(\<forall>j. n \<le> j \<and> j < n + d \<longrightarrow> (\<exists>x. RecvReq s j = Item x)) \<Longrightarrow>
   Loop r s n st = Loop r s (n + d) (st\<lparr>spawned := spawned st @ dispatched s n (n + d)\<rparr>)"
proof (induction d arbitrary: n st)
  case 0
  show ?case by (simp add: dispatched_empty)
next
  case (Suc d)
  from Suc.prems have "\<exists>x. RecvReq s n = Item x" by simp
  then obtain x where x: "RecvReq s n = Item x" ..
  have rest: "\<forall>j. Suc n \<le> j \<and> j < Suc n + d \<longrightarrow> (\<exists>x. RecvReq s j = Item x)"
    using Suc.prems by simp
  have d: "dispatched s n (n + Suc d) =
      (case x of Some rq \<Rightarrow> [rq] | None \<Rightarrow> []) @ dispatched s (Suc n) (Suc n + d)"
    using dispatched_Cons [of n "n + Suc d" s] x by (simp split: option.split)
  show ?case
  proof (cases x)
    case None
    have "Loop r s n st = Loop r s (Suc n) st"
      using x None by (subst Loop.simps) simp
    also have "\<dots> = Loop r s (Suc n + d) (st\<lparr>spawned := spawned st @ dispatched s (Suc n) (Suc n + d)\<rparr>)"
      by (rule Suc.IH [OF rest])
    finally show ?thesis using d None by simp
  next
    case (Some rq)
    have "Loop r s n st = Loop r s (Suc n) (st\<lparr>spawned := spawned st @ [rq]\<rparr>)"
      using x Some by (subst Loop.simps) simp
    also have "\<dots> = Loop r s (Suc n + d)
        (st\<lparr>spawned := spawned st @ [rq]\<rparr>
           \<lparr>spawned := spawned (st\<lparr>spawned := spawned st @ [rq]\<rparr>) @ dispatched s (Suc n) (Suc n + d)\<rparr>)"
      by (rule Suc.IH [OF rest])
    finally show ?thesis using d Some by simp
  qed
qed

lemma Loop_closed:
  assumes "n \<le> k" "\<forall>j. n \<le> j \<and> j < k \<longrightarrow> (\<exists>x. RecvReq s j = Item x)" "RecvReq s k = ChClosed"
  shows "Loop r s n st =
     Some (st\<lparr>spawned := spawned st @ dispatched s n k,
              logs := logs st @ [(SessionID s, ''loop stopped since session is closed''),
                                 (SessionID s, ''loop exit'')]\<rparr>)"
proof -
  from assms(1) obtain d where k: "k = n + d" using le_Suc_ex by blast
  have "Loop r s n st = Loop r s k (st\<lparr>spawned := spawned st @ dispatched s n k\<rparr>)"
    unfolding k using assms(2) unfolding k by (rule Loop_items)
  also have "\<dots> = Some (st\<lparr>spawned := spawned st @ dispatched s n k,
              logs := logs st @ [(SessionID s, ''loop stopped since session is closed''),
                                 (SessionID s, ''loop exit'')]\<rparr>)"
    using assms(3) by (subst Loop.simps) simp
  finally show ?thesis .
qed

lemma Loop_returns_closed:
  "Loop r s n st = Some st' \<Longrightarrow>
   \<exists>k\<ge>n. RecvReq s k = ChClosed \<and> (\<forall>j. n \<le> j \<and> j < k \<longrightarrow> (\<exists>x. RecvReq s j = Item x))"
proof (induction rule: Loop.raw_induct [rotated, consumes 1])
  case (1 Loop' r s n st st')
  show ?case
  proof (cases "RecvReq s n")
    case (Item x)
    with 1(2) have "\<exists>st1. Loop' r s (n + 1) st1 = Some st'"
      by (auto split: option.splits)
    then obtain st1 where "Loop' r s (n + 1) st1 = Some st'" ..
    from 1(1) [OF this] obtain k where k: "k \<ge> n + 1" "RecvReq s k = ChClosed"
      "\<forall>j. n + 1 \<le> j \<and> j < k \<longrightarrow> (\<exists>x. RecvReq s j = Item x)" by blast
    have "\<forall>j. n \<le> j \<and> j < k \<longrightarrow> (\<exists>x. RecvReq s j = Item x)"
    proof (intro allI impI)
      fix j assume j: "n \<le> j \<and> j < k"
      show "\<exists>x. RecvReq s j = Item x"
      proof (cases "j = n")
        case True
        with Item show ?thesis by simp
      next
        case False
        with j k(3) show ?thesis by simp
      qed
    qed
    with k show ?thesis by (intro exI [of _ k]) simp
  next
    case ChClosed
    then show ?thesis by (intro exI [of _ n]) auto
  next
    case Blocked
    with 1(2) show ?thesis by simp
  qed
qed

lemma Loop_returns_iff:
  "(\<exists>st'. Loop r s n st = Some st') =
   (\<exists>k\<ge>n. RecvReq s k = ChClosed \<and> (\<forall>j. n \<le> j \<and> j < k \<longrightarrow> (\<exists>x. RecvReq s j = Item x)))"
  using Loop_returns_closed [of r s n st] Loop_closed [of n _ s r st] by blast

lemma chanOf_items:
  "RecvReq (openSession (chanOf xs)) j = (if j < length xs then Item (xs ! j) else ChClosed)"
  "RecvReq (closedSession (chanOf xs)) j = (if j < length xs then Item (xs ! j) else ChClosed)"
  by (simp_all add: openSession_def closedSession_def chanOf_def)

lemma session_ids:
  "SessionID (openSession ch) = ''s1''" "SessionID (closedSession ch) = ''s2''"
  by (simp_all add: openSession_def closedSession_def)

section \<open>Errors, silent handlers and the life of the loop\<close>

lemma goroutine_result:
  "fst (handleReq r s (Some rq) w) = (Returns err, w') \<Longrightarrow>
   fst (goroutine r s rq (w, lg)) =
     Returns (w', case err of
                    None \<Rightarrow> lg
                  | Some e \<Rightarrow> lg @ [(SessionID s, ''handle request err: '' @ e)])"
  by (cases "handleReq r s (Some rq) w") (auto simp: goroutine_def split: option.split)

text \<open>
  C5: when the composed chain of a request returns an error, \<^verbatim>\<open>handleReq\<close> returns the
  error \<^verbatim>\<open>handler err: ...\<close> and leaves the world exactly as the chain left it, so
  \<^verbatim>\<open>SendResp\<close> is not called, whatever response the chain returned beside the error;
  the goroutine records the error in the log and returns; and the loop goes on: on a
  channel that is closed at receive \<open>k\<close>, a goroutine is started for every non-nil
  request received before, and only then does the loop return.
\<close>

theorem handler_error_no_response:
  assumes "composedChain r (ID rq) = Returns (Some f)" and "f s rq w = ((resp, Some e), w')"
  shows "fst (handleReq r s (Some rq) w) = (Returns (Some (''handler err: '' @ e)), w') \<and>
         fst (goroutine r s rq (w, lg)) =
           Returns (w', lg @ [(SessionID s, ''handle request err: handler err: '' @ e)]) \<and>
         (n \<le> k \<and> (\<forall>j. n \<le> j \<and> j < k \<longrightarrow> (\<exists>x. RecvReq s j = Item x)) \<and> RecvReq s k = ChClosed \<longrightarrow>
            Loop r s n st =
              Some (st\<lparr>spawned := spawned st @ dispatched s n k,
                       logs := logs st @ [(SessionID s, ''loop stopped since session is closed''),
                                          (SessionID s, ''loop exit'')]\<rparr>))"
proof -
  have h: "fst (handleReq r s (Some rq) w) = (Returns (Some (''handler err: '' @ e)), w')"
    using assms by (simp add: handleReq_composedChain callStack_error)
  have g: "fst (goroutine r s rq (w, lg)) =
      Returns (w', lg @ [(SessionID s, ''handle request err: handler err: '' @ e)])"
    using goroutine_result [OF h, of lg] by simp
  from h g Loop_closed [of n k s r st] show ?thesis by blast
qed

theorem handler_error_no_response_witness:
  "fst (handleReq (Register (Register New 1 (tagHandler ''H1'' (Some pong) (Some ''boom'')) [])
        2 (tagHandler ''H2'' (Some pong) None) [])
     (openSession (chanOf [Some (ping 1), Some (ping 2)])) (Some (ping 1)) [])
     = (Returns (Some ''handler err: boom''), [''H1'']) \<and>
   fst (goroutine (Register (Register New 1 (tagHandler ''H1'' (Some pong) (Some ''boom'')) [])
        2 (tagHandler ''H2'' (Some pong) None) [])
     (openSession (chanOf [Some (ping 1), Some (ping 2)])) (ping 1) ([], []))
     = Returns ([''H1''], [(''s1'', ''handle request err: handler err: boom'')]) \<and>
   Loop (Register (Register New 1 (tagHandler ''H1'' (Some pong) (Some ''boom'')) [])
        2 (tagHandler ''H2'' (Some pong) None) [])
     (openSession (chanOf [Some (ping 1), Some (ping 2)])) 0 \<lparr>spawned = [], logs = []\<rparr>
     = Some \<lparr>spawned = [ping 1, ping 2],
             logs = [(''s1'', ''loop stopped since session is closed''), (''s1'', ''loop exit'')]\<rparr>"
proof -
  let ?r = "Register (Register New 1 (tagHandler ''H1'' (Some pong) (Some ''boom'')) [])
        2 (tagHandler ''H2'' (Some pong) None) []"
  let ?s = "openSession (chanOf [Some (ping 1), Some (ping 2)])"
  let ?f = "\<lambda>(s :: string list Session) (req :: Request) w. ((Some pong, Some ''boom''), w @ [''H1''])"
  let ?st = "\<lparr>spawned = [], logs = []\<rparr>"
  have c: "composedChain ?r (ID (ping 1)) = Returns (Some ?f)"
    by (simp add: composedChain_def Register_globals globals_New)
      (simp add: Register_def New_def tagHandler_def ping_def)
  have f: "?f ?s (ping 1) [] = ((Some pong, Some ''boom''), [''H1''])" by simp
  have a: "(0::nat) \<le> 2 \<and> (\<forall>j. 0 \<le> j \<and> j < 2 \<longrightarrow> (\<exists>x. RecvReq ?s j = Item x)) \<and> RecvReq ?s 2 = ChClosed"
    by (simp add: chanOf_items)
  have d: "dispatched ?s 0 2 = [ping 1, ping 2]"
    by (simp add: dispatched_def chanOf_items upt_rec)
  note t = handler_error_no_response [OF c f, where lg = "[]" and n = 0 and k = 2 and st = ?st]
  from t have 1: "fst (handleReq ?r ?s (Some (ping 1)) []) =
      (Returns (Some (''handler err: '' @ ''boom'')), [''H1''])"
    by blast
  from t have 2: "fst (goroutine ?r ?s (ping 1) ([], [])) =
      Returns ([''H1''], [] @ [(SessionID ?s, ''handle request err: handler err: '' @ ''boom'')])"
    by blast
  from t a have 3: "Loop ?r ?s 0 ?st =
      Some (?st\<lparr>spawned := spawned ?st @ dispatched ?s 0 2,
                logs := logs ?st @ [(SessionID ?s, ''loop stopped since session is closed''),
                                    (SessionID ?s, ''loop exit'')]\<rparr>)"
    by blast
  have h1: "fst (handleReq ?r ?s (Some (ping 1)) []) = (Returns (Some ''handler err: boom''), [''H1''])"
    using 1 by simp
  have h2: "fst (goroutine ?r ?s (ping 1) ([], [])) =
      Returns ([''H1''], [(''s1'', ''handle request err: handler err: boom'')])"
    using 2 by (simp add: session_ids)
  have h3: "Loop ?r ?s 0 ?st = Some \<lparr>spawned = [ping 1, ping 2],
             logs = [(''s1'', ''loop stopped since session is closed''), (''s1'', ''loop exit'')]\<rparr>"
    using 3 by (simp add: session_ids d)
  from h1 h2 h3 show ?thesis by blast
qed

text \<open>
  C6: when the composed chain of a request returns a nil response and a nil error,
  \<^verbatim>\<open>handleReq\<close> returns nil and leaves the world exactly as the chain left it, so
  \<^verbatim>\<open>SendResp\<close> is not called; the goroutine logs nothing.
\<close>

theorem nil_response_no_reply:
  assumes "composedChain r (ID rq) = Returns (Some f)" and "f s rq w = ((None, None), w')"
  shows "fst (handleReq r s (Some rq) w) = (Returns None, w') \<and>
         fst (goroutine r s rq (w, lg)) = Returns (w', lg)"
proof -
  have h: "fst (handleReq r s (Some rq) w) = (Returns None, w')"
    using assms by (simp add: handleReq_composedChain callStack_silent)
  with goroutine_result [OF h, of lg] show ?thesis by simp
qed

theorem nil_response_no_reply_witness:
  "fst (handleReq (Register New 1 (tagHandler ''H'' None None) []) (openSession (chanOf []))
     (Some (ping 1)) []) = (Returns None, [''H'']) \<and>
   fst (goroutine (Register New 1 (tagHandler ''H'' None None) []) (openSession (chanOf []))
     (ping 1) ([], [])) = Returns ([''H''], [])"
proof -
  let ?r = "Register New 1 (tagHandler ''H'' None None) []"
  let ?s = "openSession (chanOf [])"
  let ?f = "\<lambda>(s :: string list Session) (req :: Request) w.
      ((None :: Response option, None :: error option), w @ [''H''])"
  have c: "composedChain ?r (ID (ping 1)) = Returns (Some ?f)"
    by (simp add: composedChain_def Register_globals globals_New)
      (simp add: Register_def New_def tagHandler_def ping_def)
  have f: "?f ?s (ping 1) [] = ((None, None), [''H''])" by simp
  from nil_response_no_reply [OF c f, where lg = "[]"] show ?thesis .
qed

text \<open>
  C7: when \<^verbatim>\<open>SendResp\<close> fails, \<^verbatim>\<open>handleReq\<close> returns the error
  \<^verbatim>\<open>session send response err: ...\<close>, the goroutine records it in the log and returns;
  the loop goes on: on a channel that is closed at receive \<open>k\<close>, a goroutine is started
  for every non-nil request received before, those after the failed one included; and
  \<^verbatim>\<open>Loop\<close> returns if and only if a receive on the session's inbound channel finds the
  channel closed.
\<close>

theorem send_failure_not_fatal:
  assumes "composedChain r (ID rq) = Returns (Some f)" and "f s rq w = ((Some resp, None), w')"
    and "SendResp s resp w' = (Some e, w'')"
  shows "fst (handleReq r s (Some rq) w) =
           (Returns (Some (''session send response err: '' @ e)), w'') \<and>
         fst (goroutine r s rq (w, lg)) =
           Returns (w'', lg @ [(SessionID s, ''handle request err: session send response err: '' @ e)]) \<and>
         (n \<le> k \<and> (\<forall>j. n \<le> j \<and> j < k \<longrightarrow> (\<exists>x. RecvReq s j = Item x)) \<and> RecvReq s k = ChClosed \<longrightarrow>
            Loop r s n st =
              Some (st\<lparr>spawned := spawned st @ dispatched s n k,
                       logs := logs st @ [(SessionID s, ''loop stopped since session is closed''),
                                          (SessionID s, ''loop exit'')]\<rparr>)) \<and>
         ((\<exists>st'. Loop r s n st = Some st') =
          (\<exists>k\<ge>n. RecvReq s k = ChClosed \<and> (\<forall>j. n \<le> j \<and> j < k \<longrightarrow> (\<exists>x. RecvReq s j = Item x))))"
proof -
  have h: "fst (handleReq r s (Some rq) w) =
      (Returns (Some (''session send response err: '' @ e)), w'')"
    using assms by (simp add: handleReq_composedChain callStack_send_failed)
  have g: "fst (goroutine r s rq (w, lg)) =
      Returns (w'', lg @ [(SessionID s, ''handle request err: session send response err: '' @ e)])"
    using goroutine_result [OF h, of lg] by simp
  from h g Loop_closed [of n k s r st] Loop_returns_iff [of r s n st] show ?thesis by blast
qed

theorem send_failure_not_fatal_witness:
  "fst (handleReq (Register New 1 (tagHandler ''H'' (Some pong) None) [])
     (closedSession (chanOf [Some (ping 1), None, Some (ping 2)])) (Some (ping 1)) [])
     = (Returns (Some ''session send response err: session closed''), [''H'']) \<and>
   fst (goroutine (Register New 1 (tagHandler ''H'' (Some pong) None) [])
     (closedSession (chanOf [Some (ping 1), None, Some (ping 2)])) (ping 1) ([], []))
     = Returns ([''H''], [(''s2'', ''handle request err: session send response err: session closed'')]) \<and>
   Loop (Register New 1 (tagHandler ''H'' (Some pong) None) [])
     (closedSession (chanOf [Some (ping 1), None, Some (ping 2)])) 0 \<lparr>spawned = [], logs = []\<rparr>
     = Some \<lparr>spawned = [ping 1, ping 2],
             logs = [(''s2'', ''loop stopped since session is closed''), (''s2'', ''loop exit'')]\<rparr> \<and>
   (\<exists>st'. Loop (Register New 1 (tagHandler ''H'' (Some pong) None) [])
     (closedSession (chanOf [Some (ping 1), None, Some (ping 2)])) 0 \<lparr>spawned = [], logs = []\<rparr> = Some st')"
proof -
  let ?r = "Register New 1 (tagHandler ''H'' (Some pong) None) []"
  let ?s = "closedSession (chanOf [Some (ping 1), None, Some (ping 2)])"
  let ?f = "\<lambda>(s :: string list Session) (req :: Request) w. ((Some pong, None :: error option), w @ [''H''])"
  let ?st = "\<lparr>spawned = [], logs = []\<rparr>"
  have c: "composedChain ?r (ID (ping 1)) = Returns (Some ?f)"
    by (simp add: composedChain_def Register_globals globals_New)
      (simp add: Register_def New_def tagHandler_def ping_def)
  have f: "?f ?s (ping 1) [] = ((Some pong, None), [''H''])" by simp
  have e: "SendResp ?s pong [''H''] = (Some ''session closed'', [''H''])"
    by (simp add: closedSession_def)
  have a: "(0::nat) \<le> 3 \<and> (\<forall>j. 0 \<le> j \<and> j < 3 \<longrightarrow> (\<exists>x. RecvReq ?s j = Item x)) \<and> RecvReq ?s 3 = ChClosed"
    by (simp add: chanOf_items)
  have k: "\<exists>k\<ge>0. RecvReq ?s k = ChClosed \<and> (\<forall>j. 0 \<le> j \<and> j < k \<longrightarrow> (\<exists>x. RecvReq ?s j = Item x))"
    using a by (intro exI [of _ 3]) simp
  have d: "dispatched ?s 0 3 = [ping 1, ping 2]"
    by (simp add: dispatched_def chanOf_items upt_rec)
  note t = send_failure_not_fatal [OF c f e, where lg = "[]" and n = 0 and k = 3 and st = ?st]
  from t have 1: "fst (handleReq ?r ?s (Some (ping 1)) []) =
      (Returns (Some (''session send response err: '' @ ''session closed'')), [''H''])"
    by blast
  from t have 2: "fst (goroutine ?r ?s (ping 1) ([], [])) =
      Returns ([''H''], [] @ [(SessionID ?s, ''handle request err: session send response err: '' @ ''session closed'')])"
    by blast
  from t a have 3: "Loop ?r ?s 0 ?st =
      Some (?st\<lparr>spawned := spawned ?st @ dispatched ?s 0 3,
                logs := logs ?st @ [(SessionID ?s, ''loop stopped since session is closed''),
                                    (SessionID ?s, ''loop exit'')]\<rparr>)"
    by blast
  from t k have 4: "\<exists>st'. Loop ?r ?s 0 ?st = Some st'" by blast
  have h1: "fst (handleReq ?r ?s (Some (ping 1)) []) =
      (Returns (Some ''session send response err: session closed''), [''H''])"
    using 1 by simp
  have h2: "fst (goroutine ?r ?s (ping 1) ([], [])) =
      Returns ([''H''], [(''s2'', ''handle request err: session send response err: session closed'')])"
    using 2 by (simp add: session_ids)
  have h3: "Loop ?r ?s 0 ?st = Some \<lparr>spawned = [ping 1, ping 2],
             logs = [(''s2'', ''loop stopped since session is closed''), (''s2'', ''loop exit'')]\<rparr>"
    using 3 by (simp add: session_ids d)
  from h1 h2 h3 4 show ?thesis by blast
qed

text \<open>
  C10: a nil request received from the inbound channel is skipped. The loop goes to the
  next receive with its state as it was: no goroutine is started for it, so no handler
  is invoked and no response is sent, and nothing is logged; the requests that follow
  are dispatched as usual until the channel is closed.
\<close>

theorem nil_request_skipped:
  assumes "RecvReq s n = Item None"
  shows "Loop r s n st = Loop r s (n + 1) st \<and>
         dispatched s n (n + 1) = [] \<and>
         (n < k \<and> (\<forall>j. n < j \<and> j < k \<longrightarrow> (\<exists>x. RecvReq s j = Item x)) \<and> RecvReq s k = ChClosed \<longrightarrow>
            Loop r s n st =
              Some (st\<lparr>spawned := spawned st @ dispatched s (n + 1) k,
                       logs := logs st @ [(SessionID s, ''loop stopped since session is closed''),
                                          (SessionID s, ''loop exit'')]\<rparr>))"
proof -
  have 1: "Loop r s n st = Loop r s (n + 1) st"
    using assms by (subst Loop.simps) simp
  have 2: "dispatched s n (n + 1) = []"
    using assms by (simp add: dispatched_def)
  have 3: "Loop r s (n + 1) st =
              Some (st\<lparr>spawned := spawned st @ dispatched s (n + 1) k,
                       logs := logs st @ [(SessionID s, ''loop stopped since session is closed''),
                                          (SessionID s, ''loop exit'')]\<rparr>)"
    if "n < k" "\<forall>j. n < j \<and> j < k \<longrightarrow> (\<exists>x. RecvReq s j = Item x)" "RecvReq s k = ChClosed"
    using that by (intro Loop_closed) auto
  from 1 2 3 show ?thesis by simp
qed

theorem nil_request_skipped_witness:
  "RecvReq (openSession (chanOf [None, Some (ping 1)])) 0 = Item None \<and>
   Loop New (openSession (chanOf [None, Some (ping 1)])) 0 \<lparr>spawned = [], logs = []\<rparr>
     = Loop New (openSession (chanOf [None, Some (ping 1)])) 1 \<lparr>spawned = [], logs = []\<rparr> \<and>
   Loop New (openSession (chanOf [None, Some (ping 1)])) 0 \<lparr>spawned = [], logs = []\<rparr>
     = Some \<lparr>spawned = [ping 1],
             logs = [(''s1'', ''loop stopped since session is closed''), (''s1'', ''loop exit'')]\<rparr>"
proof -
  let ?s = "openSession (chanOf [None, Some (ping 1)])"
  let ?st = "\<lparr>spawned = [], logs = []\<rparr>"
  let ?r = "New :: string list Router"
  have a: "RecvReq ?s 0 = Item None" by (simp add: chanOf_items)
  have b: "(0::nat) < 2 \<and> (\<forall>j. 0 < j \<and> j < 2 \<longrightarrow> (\<exists>x. RecvReq ?s j = Item x)) \<and> RecvReq ?s 2 = ChClosed"
    by (simp add: chanOf_items)
  have d: "dispatched ?s (0 + 1) 2 = [ping 1]"
    by (simp add: dispatched_def chanOf_items upt_rec)
  note t = nil_request_skipped [OF a, where r = ?r and st = ?st and k = 2]
  from t have 1: "Loop ?r ?s 0 ?st = Loop ?r ?s (0 + 1) ?st" by blast
  from t b have 2: "Loop ?r ?s 0 ?st =
      Some (?st\<lparr>spawned := spawned ?st @ dispatched ?s (0 + 1) 2,
                logs := logs ?st @ [(SessionID ?s, ''loop stopped since session is closed''),
                                    (SessionID ?s, ''loop exit'')]\<rparr>)"
    by blast
  have h1: "Loop ?r ?s 0 ?st = Loop ?r ?s 1 ?st" using 1 by simp
  have h2: "Loop ?r ?s 0 ?st = Some \<lparr>spawned = [ping 1],
             logs = [(''s1'', ''loop stopped since session is closed''), (''s1'', ''loop exit'')]\<rparr>"
    unfolding 2 d by (simp add: session_ids)
  from a h1 h2 show ?thesis by blast
qed

section \<open>The accept loop\<close>

lemma keepAccepting_Accepted:
  "listener srv k = Accepted c \<Longrightarrow>
   keepAccepting (Suc fuel) srv k st =
     (if Closes c then
        keepAccepting fuel srv (k + 1)
          (st\<lparr>conns := conns st @ [c],
              hookWorld := runHook (onDisconnectFn srv) c
                             (runHook (onConnectedFn srv) c (hookWorld st))\<rparr>)
      else
        (WaitingClosed c,
         st\<lparr>conns := conns st @ [c],
            hookWorld := runHook (onConnectedFn srv) c (hookWorld st)\<rparr>))"
  by (simp add: Let_def runHook_def split: option.split)

lemma keepAccepting_run:
  "keepAccepting fuel srv k st = (out, st') \<Longrightarrow>
   \<exists>cs. conns st' = conns st @ cs \<and>
        map Accepted cs = map (listener srv) [k..<k + length cs] \<and>
        (\<forall>c\<in>set (butlast cs). Closes c) \<and>
        hookWorld st' = serialHooks srv cs (hookWorld st) \<and>
        (\<forall>c. out = WaitingClosed c \<longrightarrow> cs \<noteq> [] \<and> last cs = c \<and> \<not> Closes c)"
proof (induction fuel arbitrary: k st)
  case 0
  then show ?case by (intro exI [of _ "[]"]) auto
next
  case (Suc fuel)
  show ?case
  proof (cases "listener srv k")
    case AcceptBlocks
    with Suc.prems show ?thesis by (intro exI [of _ "[]"]) auto
  next
    case (AcceptError err)
    with Suc.prems show ?thesis by (intro exI [of _ "[]"]) auto
  next
    case (Accepted c)
    note step = keepAccepting_Accepted [OF Accepted, of fuel st]
    show ?thesis
    proof (cases "Closes c")
      case False
      with step Suc.prems have "out = WaitingClosed c" "conns st' = conns st @ [c]"
        "hookWorld st' = runHook (onConnectedFn srv) c (hookWorld st)"
        by auto
      with False Accepted show ?thesis by (intro exI [of _ "[c]"]) auto
    next
      case True
      let ?st3 = "st\<lparr>conns := conns st @ [c],
              hookWorld := runHook (onDisconnectFn srv) c
                             (runHook (onConnectedFn srv) c (hookWorld st))\<rparr>"
      from step True Suc.prems have "keepAccepting fuel srv (k + 1) ?st3 = (out, st')"
        by simp
      from Suc.IH [OF this] obtain cs where cs:
        "conns st' = conns ?st3 @ cs"
        "map Accepted cs = map (listener srv) [k + 1..<k + 1 + length cs]"
        "\<forall>c\<in>set (butlast cs). Closes c"
        "hookWorld st' = serialHooks srv cs (hookWorld ?st3)"
        "\<forall>c. out = WaitingClosed c \<longrightarrow> cs \<noteq> [] \<and> last cs = c \<and> \<not> Closes c"
        by blast
      have u: "[k..<k + length (c # cs)] = k # [k + 1..<k + 1 + length cs]"
        by (simp add: upt_conv_Cons del: upt_Suc)
      show ?thesis
      proof (intro exI [of _ "c # cs"] conjI)
        show "conns st' = conns st @ c # cs" using cs(1) by simp
        show "map Accepted (c # cs) = map (listener srv) [k..<k + length (c # cs)]"
          unfolding u using cs(2) Accepted by simp
        show "\<forall>c\<in>set (butlast (c # cs)). Closes c" using cs(3) True by auto
        show "hookWorld st' = serialHooks srv (c # cs) (hookWorld st)"
          using cs(4) True by simp
        show "\<forall>c'. out = WaitingClosed c' \<longrightarrow> c # cs \<noteq> [] \<and> last (c # cs) = c' \<and> \<not> Closes c'"
          using cs(5) by auto
      qed
    qed
  qed
qed

text \<open>
  C3, as the code has it. The claim reads: after the connect hook the accept loop goes
  on accepting without blocking, and waiting for the connection's closed signal does
  not delay the next accept. In \<^verbatim>\<open>keepAccepting\<close> the receive \<^verbatim>\<open><-conn.Closed\<close> stands in the
  loop itself. For every accepted connection the loop calls the connect hook
  synchronously, then waits for the closed signal of that connection, then calls the
  disconnect hook, and only then accepts again; a connection that never closes leaves
  the loop waiting for it with the connect hook run and nothing further accepted. So
  the connections built during a run are the ones the listener yields in order, every
  one but the last has closed, and the hooks have run serially: connect and disconnect
  of one connection before the connect of the next.
\<close>

theorem accept_waits_for_close:
  "(listener srv k = Accepted c \<longrightarrow>
      keepAccepting (Suc fuel) srv k st =
        (if Closes c then
           keepAccepting fuel srv (k + 1)
             (st\<lparr>conns := conns st @ [c],
                 hookWorld := runHook (onDisconnectFn srv) c
                                (runHook (onConnectedFn srv) c (hookWorld st))\<rparr>)
         else
           (WaitingClosed c,
            st\<lparr>conns := conns st @ [c],
               hookWorld := runHook (onConnectedFn srv) c (hookWorld st)\<rparr>))) \<and>
   (keepAccepting fuel srv k st = (out, st') \<longrightarrow>
      (\<exists>cs. conns st' = conns st @ cs \<and>
        map Accepted cs = map (listener srv) [k..<k + length cs] \<and>
        (\<forall>c\<in>set (butlast cs). Closes c) \<and>
        hookWorld st' = serialHooks srv cs (hookWorld st) \<and>
        (\<forall>c. out = WaitingClosed c \<longrightarrow> cs \<noteq> [] \<and> last cs = c \<and> \<not> Closes c)))"
  using keepAccepting_run [of fuel srv k st out st'] keepAccepting_Accepted [of srv k c fuel st]
  by blast

theorem accept_waits_for_close_witness:
  "keepAccepting 5 (hookServer (peersOf [True, False, False])) 0 \<lparr>conns = [], hookWorld = []\<rparr> =
     (WaitingClosed \<lparr>Peer = 1, Closes = False\<rparr>,
      \<lparr>conns = [\<lparr>Peer = 0, Closes = True\<rparr>, \<lparr>Peer = 1, Closes = False\<rparr>],
        hookWorld = [''connected'', ''disconnected'', ''connected'']\<rparr>) \<and>
   (\<exists>cs. [\<lparr>Peer = 0, Closes = True\<rparr>, \<lparr>Peer = 1, Closes = False\<rparr>] = [] @ cs \<and>
      map Accepted cs = map (peersOf [True, False, False]) [0..<0 + length cs] \<and>
      (\<forall>c\<in>set (butlast cs). Closes c) \<and>
      [''connected'', ''disconnected'', ''connected''] =
        serialHooks (hookServer (peersOf [True, False, False])) cs [] \<and>
      cs \<noteq> [] \<and> last cs = \<lparr>Peer = 1, Closes = False\<rparr>) \<and>
   keepAccepting (Suc (Suc 0)) (hookServer (peersOf [True, False, False])) 0
       \<lparr>conns = [], hookWorld = []\<rparr> =
     keepAccepting (Suc 0) (hookServer (peersOf [True, False, False])) 1
       \<lparr>conns = [\<lparr>Peer = 0, Closes = True\<rparr>], hookWorld = [''connected'', ''disconnected'']\<rparr> \<and>
   keepAccepting (Suc 0) (hookServer (peersOf [True, False, False])) 1
       \<lparr>conns = [\<lparr>Peer = 0, Closes = True\<rparr>], hookWorld = [''connected'', ''disconnected'']\<rparr> =
     (WaitingClosed \<lparr>Peer = 1, Closes = False\<rparr>,
      \<lparr>conns = [\<lparr>Peer = 0, Closes = True\<rparr>, \<lparr>Peer = 1, Closes = False\<rparr>],
        hookWorld = [''connected'', ''disconnected'', ''connected'']\<rparr>)"
proof -
  let ?srv = "hookServer (peersOf [True, False, False])"
  let ?st0 = "\<lparr>conns = [], hookWorld = []\<rparr> :: string list ServerState"
  let ?c0 = "\<lparr>Peer = 0, Closes = True\<rparr>"
  let ?c1 = "\<lparr>Peer = 1, Closes = False\<rparr>"
  let ?st' = "\<lparr>conns = [?c0, ?c1], hookWorld = [''connected'', ''disconnected'', ''connected'']\<rparr>"
  let ?st1 = "\<lparr>conns = [?c0], hookWorld = [''connected'', ''disconnected'']\<rparr>"
  have e: "keepAccepting 5 ?srv 0 ?st0 = (WaitingClosed ?c1, ?st')"
    by code_simp
  have l0: "listener ?srv 0 = Accepted ?c0"
    by (simp add: hookServer_def peersOf_def)
  have l1: "listener ?srv 1 = Accepted ?c1"
    by (simp add: hookServer_def peersOf_def)
  have ls: "listener ?srv = peersOf [True, False, False]"
    by (simp add: hookServer_def)
  note t = accept_waits_for_close [where fuel = 5 and srv = ?srv and k = 0
      and st = ?st0 and out = "WaitingClosed ?c1" and st' = ?st' and c = ?c1]
  from t [THEN conjunct2, THEN mp, OF e] obtain cs where
    cs0: "conns ?st' = conns ?st0 @ cs \<and>
      map Accepted cs = map (listener ?srv) [0..<0 + length cs] \<and>
      (\<forall>c\<in>set (butlast cs). Closes c) \<and>
      hookWorld ?st' = serialHooks ?srv cs (hookWorld ?st0) \<and>
      (\<forall>c. WaitingClosed ?c1 = WaitingClosed c \<longrightarrow> cs \<noteq> [] \<and> last cs = c \<and> \<not> Closes c)" ..
  note cs = cs0 [THEN conjunct1] cs0 [THEN conjunct2, THEN conjunct1]
    cs0 [THEN conjunct2, THEN conjunct2, THEN conjunct1]
    cs0 [THEN conjunct2, THEN conjunct2, THEN conjunct2, THEN conjunct1]
    cs0 [THEN conjunct2, THEN conjunct2, THEN conjunct2, THEN conjunct2]
  from cs(5) have c5: "cs \<noteq> [] \<and> last cs = ?c1" by simp
  from cs(1) have c1: "[?c0, ?c1] = [] @ cs" by simp
  from cs(4) have c4: "[''connected'', ''disconnected'', ''connected''] = serialHooks ?srv cs []"
    by simp
  have 1: "\<exists>cs. [?c0, ?c1] = [] @ cs \<and>
      map Accepted cs = map (peersOf [True, False, False]) [0..<0 + length cs] \<and>
      (\<forall>c\<in>set (butlast cs). Closes c) \<and>
      [''connected'', ''disconnected'', ''connected''] = serialHooks ?srv cs [] \<and>
      cs \<noteq> [] \<and> last cs = ?c1"
    using c1 cs(2) [unfolded ls] cs(3) c4 c5 by (intro exI [of _ cs] conjI) simp_all
  note t0 = accept_waits_for_close [where fuel = "Suc 0" and srv = ?srv and k = 0 and st = ?st0
      and c = ?c0 and out = "WaitingClosed ?c1" and st' = ?st']
  from t0 [THEN conjunct1, THEN mp, OF l0]
  have 2: "keepAccepting (Suc (Suc 0)) ?srv 0 ?st0 = keepAccepting (Suc 0) ?srv 1 ?st1"
    by (simp add: hookServer_def markHook_def runHook_def)
  note t1 = accept_waits_for_close [where fuel = 0 and srv = ?srv and k = 1 and st = ?st1
      and c = ?c1 and out = "WaitingClosed ?c1" and st' = ?st']
  from t1 [THEN conjunct1, THEN mp, OF l1]
  have 3: "keepAccepting (Suc 0) ?srv 1 ?st1 = (WaitingClosed ?c1, ?st')"
    by (simp add: hookServer_def markHook_def runHook_def)
  from e 1 2 3 show ?thesis by (intro conjI)
qed

text \<open>
  C3 as stated fails: with two peers waiting on the listener and neither hanging up, the
  loop accepts the first, runs the connect hook and waits for its closed signal; the
  second peer is not accepted.
\<close>

theorem accept_blocks_counterexample:
  "peersOf [False, False] 1 = Accepted \<lparr>Peer = 1, Closes = False\<rparr> \<and>
   keepAccepting 5 (hookServer (peersOf [False, False])) 0 \<lparr>conns = [], hookWorld = []\<rparr> =
     (WaitingClosed \<lparr>Peer = 0, Closes = False\<rparr>,
      \<lparr>conns = [\<lparr>Peer = 0, Closes = False\<rparr>], hookWorld = [''connected'']\<rparr>)"
  by code_simp

end
